theory Spec2Isabelle
  imports Main
begin

section \<open>disparrange: display setups turned into one xrandr command line\<close>

text \<open>
  A shallow embedding of \<^verbatim>\<open>disparrange.py\<close>. Python values are modelled as follows.
  \<^item> \<^verbatim>\<open>str\<close> is \<open>string\<close>, one \<open>char\<close> per code point below 256.
  \<^item> \<^verbatim>\<open>int\<close> is \<open>int\<close>.
  \<^item> A \<^verbatim>\<open>dict\<close> is an association list with distinct keys in insertion order:
    assigning to a key that is present replaces its value in place, assigning to a new
    key appends it.
  \<^item> An uncaught exception is \<open>Inl\<close> of a result \<open>exn + 'a\<close>.
  \<^item> Printing and running a subprocess are events of a trace, returned with the result.
  \<^item> An entry of a display setup follows the file format of the module's docstring:
    \<^verbatim>\<open>"output"\<close> is a string, \<^verbatim>\<open>"mode"\<close> and \<^verbatim>\<open>"pos"\<close> are arrays of two integers,
    and each of the three may be absent.
\<close>

subsection \<open>Strings\<close>

text \<open>\<^verbatim>\<open>s.startswith(p)\<close>.\<close>

definition startswith :: "string \<Rightarrow> string \<Rightarrow> bool" where
  "startswith s p = (take (length p) s = p)"

text \<open>\<^verbatim>\<open>c.isspace()\<close> for the code points below 256.\<close>

definition isspace :: "char \<Rightarrow> bool" where
  "isspace c = (c \<in> set [CHR 0x09, CHR 0x0A, CHR 0x0B, CHR 0x0C, CHR 0x0D,
                          CHR 0x1C, CHR 0x1D, CHR 0x1E, CHR 0x1F, CHR 0x20,
                          CHR 0x85, CHR 0xA0])"

text \<open>
  \<^verbatim>\<open>s.split()\<close>: the maximal runs of characters that are not whitespace. The first
  argument of \<open>split_run\<close> is the run read so far.
\<close>

fun split_run :: "string \<Rightarrow> string \<Rightarrow> string list" where
  "split_run cur [] = (if cur = [] then [] else [cur])"
| "split_run cur (c # cs) =
     (if isspace c then (if cur = [] then split_run [] cs else cur # split_run [] cs)
      else split_run (cur @ [c]) cs)"

definition split :: "string \<Rightarrow> string list" where
  "split s = split_run [] s"

text \<open>\<^verbatim>\<open>s.split(sep)\<close> for a separator of one character: empty pieces are kept.\<close>

fun split_piece :: "char \<Rightarrow> string \<Rightarrow> string \<Rightarrow> string list" where
  "split_piece sep cur [] = [cur]"
| "split_piece sep cur (c # cs) =
     (if c = sep then cur # split_piece sep [] cs else split_piece sep (cur @ [c]) cs)"

definition split_on :: "char \<Rightarrow> string \<Rightarrow> string list" where
  "split_on sep s = split_piece sep [] s"

text \<open>\<^verbatim>\<open>sep.join(xs)\<close>.\<close>

fun join :: "string \<Rightarrow> string list \<Rightarrow> string" where
  "join sep [] = []"
| "join sep [x] = x"
| "join sep (x # y # ys) = x @ sep @ join sep (y # ys)"

text \<open>\<^verbatim>\<open>str(i)\<close> of an integer, as the f-strings format it: decimal, with a minus sign.\<close>

definition digit :: "nat \<Rightarrow> char" where
  "digit d = ''0123456789'' ! d"

fun str_nat :: "nat \<Rightarrow> string" where
  "str_nat n = (if n < 10 then [digit n] else str_nat (n div 10) @ [digit (n mod 10)])"

declare str_nat.simps [simp del]

definition str_int :: "int \<Rightarrow> string" where
  "str_int i = (if i < 0 then ''-'' @ str_nat (nat (- i)) else str_nat (nat i))"

text \<open>How an f-string formats the value of \<^verbatim>\<open>setup.get('output')\<close>.\<close>

definition str_output :: "string option \<Rightarrow> string" where
  "str_output out = (case out of None \<Rightarrow> ''None'' | Some s \<Rightarrow> s)"

subsection \<open>Dictionaries\<close>

type_synonym ('k, 'v) dict = "('k \<times> 'v) list"

text \<open>\<^verbatim>\<open>d[k] = v\<close>.\<close>

fun dict_set :: "('k, 'v) dict \<Rightarrow> 'k \<Rightarrow> 'v \<Rightarrow> ('k, 'v) dict" where
  "dict_set [] k v = [(k, v)]"
| "dict_set ((k', v') # d) k v =
     (if k' = k then (k, v) # d else (k', v') # dict_set d k v)"

text \<open>\<^verbatim>\<open>d.get(k)\<close>, \<^verbatim>\<open>d.keys()\<close> and \<^verbatim>\<open>d.values()\<close>.\<close>

definition dict_get :: "('k, 'v) dict \<Rightarrow> 'k \<Rightarrow> 'v option" where
  "dict_get d k = map_of d k"

definition keys :: "('k, 'v) dict \<Rightarrow> 'k list" where
  "keys d = map fst d"

definition values_of :: "('k, 'v) dict \<Rightarrow> 'v list" where
  "values_of d = map snd d"

subsection \<open>Exceptions, events and the environment\<close>

datatype exn = IndexError | TypeError | AttributeError | FileError | LaunchError

text \<open>
  What a run does to the outside: a line printed to standard output or to standard
  error, \<^verbatim>\<open>subprocess.run(['xrandr'], ...)\<close> (\<open>Query\<close>) and
  \<^verbatim>\<open>subprocess.run(xrandr_args)\<close> (\<open>Apply\<close>).
\<close>

datatype event = Stdout string | Stderr string | Query | Apply "string list"

record entry =
  spec_output :: "string option"
  spec_mode :: "(int \<times> int) option"
  spec_pos :: "(int \<times> int) option"

text \<open>
  The environment of a run: what opening and parsing the JSON file of a given name
  gives (the members of the top-level object in file order, or an exception), the lines
  of the standard output of \<^verbatim>\<open>xrandr\<close> (\<^verbatim>\<open>proc.stdout.splitlines()\<close>), and the return
  code of \<^verbatim>\<open>xrandr\<close> run with given arguments; each subprocess may fail to start.
\<close>

record world =
  read_json :: "string \<Rightarrow> exn + (string \<times> entry list) list"
  query_lines :: "exn + string list"
  apply_returncode :: "string list \<Rightarrow> exn + int"

subsection \<open>OutputDevice\<close>

text \<open>
  The class defines neither \<^verbatim>\<open>__eq__\<close> nor \<^verbatim>\<open>__hash__\<close>, so an instance used as a
  dictionary key is compared by identity. \<open>obj_id\<close> is that identity; the other fields
  are the attributes set by \<^verbatim>\<open>__init__\<close>. A mode is the list \<^verbatim>\<open>[width, height]\<close>.
\<close>

record OutputDevice =
  obj_id :: nat
  name :: string
  is_connected :: bool
  modes :: "string list list"

definition OutputDevice_init :: "nat \<Rightarrow> string \<Rightarrow> bool \<Rightarrow> OutputDevice" where
  "OutputDevice_init i n c = \<lparr>obj_id = i, name = n, is_connected = c, modes = []\<rparr>"

definition add_mode :: "OutputDevice \<Rightarrow> string \<Rightarrow> string \<Rightarrow> OutputDevice" where
  "add_mode self width height = self\<lparr>modes := modes self @ [[width, height]]\<rparr>"

subsection \<open>load_display_setups\<close>

text \<open>
  \<^verbatim>\<open>json.load\<close> builds the dictionary member by member, so a name that occurs twice in
  the file keeps its first place and its last value.
\<close>

definition json_object :: "('k \<times> 'v) list \<Rightarrow> ('k, 'v) dict" where
  "json_object members = foldl (\<lambda>d (k, v). dict_set d k v) [] members"

definition load_display_setups :: "world \<Rightarrow> string \<Rightarrow> exn + (string, entry list) dict" where
  "load_display_setups w filename =
     (case read_json w filename of
        Inl e \<Rightarrow> Inl e
      | Inr members \<Rightarrow> Inr (json_object members))"

subsection \<open>get_available_displays\<close>

text \<open>
  The loop over the lines. Its state is the list \<^verbatim>\<open>displays\<close>, the variable
  \<^verbatim>\<open>new_display\<close> and the number of devices created so far, which is the identity of
  the next one. A line that starts a device with fewer than two words and a line that
  begins with a space with no word raise IndexError; a line that begins with a space
  before any device raises AttributeError
  (\<^verbatim>\<open>new_display\<close> is \<^verbatim>\<open>None\<close>); a first word that does not split on \<^verbatim>\<open>x\<close> into
  exactly two pieces raises TypeError (\<^verbatim>\<open>add_mode\<close> takes two arguments).
\<close>

fun scan_lines ::
  "string list \<Rightarrow> OutputDevice list \<Rightarrow> OutputDevice option \<Rightarrow> nat
     \<Rightarrow> exn + (OutputDevice list \<times> OutputDevice option)" where
  "scan_lines [] displays new_display fresh = Inr (displays, new_display)"
| "scan_lines (line # rest) displays new_display fresh =
     (if startswith line ''Screen'' then scan_lines rest displays new_display fresh
      else if \<not> startswith line '' '' then
        (let displays' = (case new_display of
                            Some d \<Rightarrow> displays @ [d]
                          | None \<Rightarrow> displays)
         in case split line of
              name' # state # _ \<Rightarrow>
                scan_lines rest displays'
                  (Some (OutputDevice_init fresh name' (state = ''connected''))) (Suc fresh)
            | _ \<Rightarrow> Inl IndexError)
      else
        (case split line of
           [] \<Rightarrow> Inl IndexError
         | word # _ \<Rightarrow>
             (case new_display of
                None \<Rightarrow> Inl AttributeError
              | Some d \<Rightarrow>
                  (case split_on CHR ''x'' word of
                     [width, height] \<Rightarrow>
                       scan_lines rest displays (Some (add_mode d width height)) fresh
                   | _ \<Rightarrow> Inl TypeError))))"

definition parse_displays :: "string list \<Rightarrow> exn + OutputDevice list" where
  "parse_displays lines =
     (case scan_lines lines [] None 0 of
        Inl e \<Rightarrow> Inl e
      | Inr (displays, new_display) \<Rightarrow>
          Inr (case new_display of Some d \<Rightarrow> displays @ [d] | None \<Rightarrow> displays))"

definition get_available_displays :: "world \<Rightarrow> event list \<times> (exn + OutputDevice list)" where
  "get_available_displays w =
     (case query_lines w of
        Inl e \<Rightarrow> ([Query], Inl e)
      | Inr lines \<Rightarrow> ([Query], parse_displays lines))"

subsection \<open>list_display_setups\<close>

definition list_display_setups :: "world \<Rightarrow> string \<Rightarrow> event list \<times> (exn + unit)" where
  "list_display_setups w setups_file =
     (case load_display_setups w setups_file of
        Inl e \<Rightarrow> ([], Inl e)
      | Inr display_setups \<Rightarrow>
          ([Stdout (''The following setups are defined in '' @ setups_file @ '':''),
            Stdout (join [CHR 0x0A] (keys display_setups))], Inr ()))"

subsection \<open>set_display_setup\<close>

text \<open>
  A key of \<^verbatim>\<open>arg_groups\<close>: line 120 stores under the string \<^verbatim>\<open>output\<close>, line 128
  under the object \<^verbatim>\<open>display\<close>.
\<close>

datatype key = KName string | KDevice nat

text \<open>Lines 114 to 119: the arguments of one entry of the setup.\<close>

definition display_args :: "string \<Rightarrow> (int \<times> int) \<Rightarrow> (int \<times> int) option \<Rightarrow> string list" where
  "display_args out p m =
     (let args = [''--output'', out, ''--pos'', str_int (fst p) @ ''x'' @ str_int (snd p)]
      in case m of
           Some md \<Rightarrow> args @ [''--mode'', str_int (fst md) @ ''x'' @ str_int (snd md)]
         | None \<Rightarrow> args @ [''--auto''])"

text \<open>
  Lines 103 to 120, the loop over the entries of the setup. It returns the lines
  printed to standard error and either the value returned early (\<open>Inl 2\<close>) or
  \<^verbatim>\<open>arg_groups\<close>. The name of a device is always a string, so an entry without
  \<^verbatim>\<open>"output"\<close> matches no device.
\<close>

fun activate ::
  "entry list \<Rightarrow> OutputDevice list \<Rightarrow> (key, string list) dict
     \<Rightarrow> event list \<times> (int + (key, string list) dict)" where
  "activate [] available_displays arg_groups = ([], Inr arg_groups)"
| "activate (s # rest) available_displays arg_groups =
     (let matching_displays = filter (\<lambda>disp. Some (name disp) = spec_output s) available_displays
      in case (matching_displays, spec_output s) of
           (d # _, Some out) \<Rightarrow>
             (let warning = (if \<not> is_connected d
                             then [Stderr (''warning: '' @ out @ '' is not connected'')]
                             else []);
                  p = (case spec_pos s of Some p \<Rightarrow> p | None \<Rightarrow> (0, 0));
                  (evs, r) = activate rest available_displays
                               (dict_set arg_groups (KName out) (display_args out p (spec_mode s)))
              in (warning @ evs, r))
         | _ \<Rightarrow>
             ([Stderr (''Output '' @ [CHR 0x22] @ str_output (spec_output s) @ [CHR 0x22]
                        @ '' does not exist'')], Inl 2))"

text \<open>Lines 126 to 128: an off group for every device whose name is not a key.\<close>

fun turn_off ::
  "OutputDevice list \<Rightarrow> (key, string list) dict \<Rightarrow> (key, string list) dict" where
  "turn_off [] arg_groups = arg_groups"
| "turn_off (display # rest) arg_groups =
     (if KName (name display) \<notin> set (keys arg_groups)
      then turn_off rest
             (dict_set arg_groups (KDevice (obj_id display)) [''--output'', name display, ''--off''])
      else turn_off rest arg_groups)"

text \<open>Lines 102 to 128: the argument groups, or the value returned early.\<close>

definition build_arg_groups ::
  "entry list \<Rightarrow> OutputDevice list \<Rightarrow> event list \<times> (int + (key, string list) dict)" where
  "build_arg_groups display_setup available_displays =
     (case activate display_setup available_displays [] of
        (evs, Inl code) \<Rightarrow> (evs, Inl code)
      | (evs, Inr arg_groups) \<Rightarrow>
          if length arg_groups = 0
          then (evs @ [Stderr ''No connected displays were configured - aborting''], Inl 3)
          else (evs, Inr (turn_off available_displays arg_groups)))"

text \<open>Lines 130 to 135: the command line.\<close>

definition xrandr_args :: "(key, string list) dict \<Rightarrow> bool \<Rightarrow> string list" where
  "xrandr_args arg_groups dry_run =
     foldl (\<lambda>args arg_group. args @ arg_group) [''xrandr''] (values_of arg_groups)
       @ (if dry_run then [''--dryrun''] else [])"

text \<open>
  What \<^verbatim>\<open>set_display_setup\<close> returns: one of the integers 1, 2 and 3, or the
  \<^verbatim>\<open>CompletedProcess\<close> of the apply run with its arguments and return code.
\<close>

datatype retval = Code int | CompletedProcess "string list" int

definition set_display_setup ::
  "world \<Rightarrow> string \<Rightarrow> string \<Rightarrow> bool \<Rightarrow> event list \<times> (exn + retval)" where
  "set_display_setup w setup_name setups_file dry_run =
     (case load_display_setups w setups_file of
        Inl e \<Rightarrow> ([], Inl e)
      | Inr display_setups \<Rightarrow>
          (case dict_get display_setups setup_name of
             None \<Rightarrow> ([Stderr (''Invalid display setup name: '' @ setup_name)], Inr (Code 1))
           | Some display_setup \<Rightarrow>
               (let evs0 = [Stdout (''Activating display setup '' @ setup_name)];
                    (evs1, probed) = get_available_displays w
                in case probed of
                     Inl e \<Rightarrow> (evs0 @ evs1, Inl e)
                   | Inr available_displays \<Rightarrow>
                       (case build_arg_groups display_setup available_displays of
                          (evs2, Inl code) \<Rightarrow> (evs0 @ evs1 @ evs2, Inr (Code code))
                        | (evs2, Inr arg_groups) \<Rightarrow>
                            (let args = xrandr_args arg_groups dry_run;
                                 evs3 = (if dry_run
                                         then [Stdout (''command: '' @ join '' '' args)]
                                         else [])
                             in case apply_returncode w args of
                                  Inl e \<Rightarrow> (evs0 @ evs1 @ evs2 @ evs3 @ [Apply args], Inl e)
                                | Inr rc \<Rightarrow>
                                    (evs0 @ evs1 @ evs2 @ evs3 @ [Apply args],
                                     Inr (CompletedProcess args rc)))))))"

subsection \<open>The script\<close>

text \<open>
  The parsed command line, and the body under \<^verbatim>\<open>if __name__ == '__main__'\<close>. The
  value of \<^verbatim>\<open>set_display_setup\<close> is not used and \<^verbatim>\<open>sys.exit\<close> is not called, so the
  interpreter ends with status 0, or with status 1 after an uncaught exception.
\<close>

record args =
  arg_setup :: "string option"
  arg_jsonfile :: string
  arg_dry_run :: bool
  arg_list_setups :: bool

definition main :: "world \<Rightarrow> args \<Rightarrow> event list \<times> int" where
  "main w a =
     (case arg_setup a of
        None \<Rightarrow>
          (case list_display_setups w (arg_jsonfile a) of
             (evs, Inl e) \<Rightarrow> (evs, 1)
           | (evs, Inr _) \<Rightarrow> (evs, 0))
      | Some s \<Rightarrow>
          (case set_display_setup w s (arg_jsonfile a) (arg_dry_run a) of
             (evs, Inl e) \<Rightarrow> (evs, 1)
           | (evs, Inr _) \<Rightarrow> (evs, 0)))"

subsection \<open>The command line as the specification words it\<close>

text \<open>
  The notions below follow the words of the specification, for comparison with the code.
  \<open>first_occurrences\<close> keeps the first occurrence of every element; \<open>outputs_of\<close> is
  the list of the output names of a setup in the order of its entries; \<open>last_entry\<close> is
  the last entry of a setup that names a given output; \<open>entry_args\<close> is the argument
  group of an entry: the output, the position (the origin when absent), then the mode,
  or \<^verbatim>\<open>--auto\<close> when the entry has none.
\<close>

fun first_occurrences :: "'a list \<Rightarrow> 'a list" where
  "first_occurrences [] = []"
| "first_occurrences (x # xs) = x # filter (\<lambda>y. y \<noteq> x) (first_occurrences xs)"

definition entry_args :: "string \<Rightarrow> entry \<Rightarrow> string list" where
  "entry_args out s =
     [''--output'', out, ''--pos'',
      str_int (fst (case spec_pos s of Some p \<Rightarrow> p | None \<Rightarrow> (0, 0))) @ ''x'' @
      str_int (snd (case spec_pos s of Some p \<Rightarrow> p | None \<Rightarrow> (0, 0)))]
     @ (case spec_mode s of
          Some md \<Rightarrow> [''--mode'', str_int (fst md) @ ''x'' @ str_int (snd md)]
        | None \<Rightarrow> [''--auto''])"

definition outputs_of :: "entry list \<Rightarrow> string list" where
  "outputs_of profile = List.map_filter spec_output profile"

definition last_entry :: "entry list \<Rightarrow> string \<Rightarrow> entry" where
  "last_entry profile out = last (filter (\<lambda>s. spec_output s = Some out) profile)"

text \<open>
  Activation groups in the order of the setup, one group for every output named, with
  the content of the last entry that names it; off groups in probe order, for the
  devices that the setup does not name; and the command line: the name of the utility,
  the activation groups, the off groups, and the dry-run flag when asked for.
\<close>

definition activation_groups :: "entry list \<Rightarrow> string list list" where
  "activation_groups profile =
     map (\<lambda>out. entry_args out (last_entry profile out))
       (first_occurrences (outputs_of profile))"

definition off_groups :: "entry list \<Rightarrow> OutputDevice list \<Rightarrow> string list list" where
  "off_groups profile available_displays =
     map (\<lambda>d. [''--output'', name d, ''--off''])
       (filter (\<lambda>d. name d \<notin> set (outputs_of profile)) available_displays)"

definition command_line_spec :: "entry list \<Rightarrow> OutputDevice list \<Rightarrow> bool \<Rightarrow> string list" where
  "command_line_spec profile available_displays dry_run =
     ''xrandr'' # concat (activation_groups profile)
       @ concat (off_groups profile available_displays)
       @ (if dry_run then [''--dryrun''] else [])"

subsection \<open>Lines of the query output\<close>

text \<open>
  The two tests of the loop of the prober, lines 67 and 69 of the source. A device line
  is one that the loop takes as the start of a device: it does not begin with
  \<^verbatim>\<open>Screen\<close> and \<^verbatim>\<open>line.startswith(' ')\<close> is false. A space-indented line is one
  that the loop takes as a mode of the current device: it does not begin with
  \<^verbatim>\<open>Screen\<close> and \<^verbatim>\<open>line.startswith(' ')\<close> is true. A line that begins with a tab or
  with any other whitespace character than the space is therefore a device line. A
  query output is well formed when every device line has at least two words and every
  space-indented line has such a device line before it.
\<close>

definition device_line :: "string \<Rightarrow> bool" where
  "device_line l = (\<not> startswith l ''Screen'' \<and> \<not> startswith l '' '')"

definition space_indented_line :: "string \<Rightarrow> bool" where
  "space_indented_line l = (\<not> startswith l ''Screen'' \<and> startswith l '' '')"

definition well_formed_query :: "string list \<Rightarrow> bool" where
  "well_formed_query ls =
     ((\<forall>l \<in> set ls. device_line l \<longrightarrow> 2 \<le> length (split l)) \<and>
      (\<forall>pre l post. ls = pre @ l # post \<and> space_indented_line l \<longrightarrow>
         (\<exists>h \<in> set pre. device_line h \<and> 2 \<le> length (split h))))"

text \<open>
  The same condition in the words of claim C10, which speaks of lines that start with
  whitespace: any character for which \<^verbatim>\<open>isspace\<close> holds, the space and the tab among
  them.
\<close>

definition starts_with_whitespace :: "string \<Rightarrow> bool" where
  "starts_with_whitespace l = (case l of [] \<Rightarrow> False | c # _ \<Rightarrow> isspace c)"

definition claimed_header_line :: "string \<Rightarrow> bool" where
  "claimed_header_line l = (\<not> startswith l ''Screen'' \<and> \<not> starts_with_whitespace l)"

definition claimed_indented_line :: "string \<Rightarrow> bool" where
  "claimed_indented_line l = (\<not> startswith l ''Screen'' \<and> starts_with_whitespace l)"

definition claimed_well_formed_query :: "string list \<Rightarrow> bool" where
  "claimed_well_formed_query ls =
     ((\<forall>l \<in> set ls. claimed_header_line l \<longrightarrow> 2 \<le> length (split l)) \<and>
      (\<forall>pre l post. ls = pre @ l # post \<and> claimed_indented_line l \<longrightarrow>
         (\<exists>h \<in> set pre. claimed_header_line h \<and> 2 \<le> length (split h))))"

text \<open>
  The records that the specification describes, with the modes as the code stores
  them: for every header line the name, whether the second word is \<^verbatim>\<open>connected\<close>,
  and for each indented line up to the next header line the pieces of its first word
  split on \<^verbatim>\<open>x\<close>. \<open>positive_integer_text\<close> holds of the decimal numerals of the
  positive integers.
\<close>

definition first_word :: "string \<Rightarrow> string" where
  "first_word l = (case split l of w # _ \<Rightarrow> w | [] \<Rightarrow> [])"

fun modes_after :: "string list \<Rightarrow> string list list" where
  "modes_after [] = []"
| "modes_after (l # ls) =
     (if startswith l ''Screen'' then modes_after ls
      else if \<not> startswith l '' '' then []
      else split_on CHR ''x'' (first_word l) # modes_after ls)"

fun records_spec :: "string list \<Rightarrow> (string \<times> bool \<times> string list list) list" where
  "records_spec [] = []"
| "records_spec (l # ls) =
     (if startswith l ''Screen'' \<or> startswith l '' '' then records_spec ls
      else (case split l of
              n # state # _ \<Rightarrow> (n, state = ''connected'', modes_after ls) # records_spec ls
            | _ \<Rightarrow> records_spec ls))"

definition positive_integer_text :: "string \<Rightarrow> bool" where
  "positive_integer_text s =
     (s \<noteq> [] \<and> list_all (\<lambda>c. c \<in> set ''0123456789'') s
      \<and> \<not> list_all (\<lambda>c. c = CHR ''0'') s)"

section \<open>Properties\<close>

subsection \<open>Dictionaries and the iterations of the builder\<close>

lemma set_first_occurrences: "set (first_occurrences xs) = set xs"
  by (induction xs) auto

lemma distinct_first_occurrences: "distinct (first_occurrences xs)"
  by (induction xs) (auto simp: set_first_occurrences)

lemma first_occurrences_snoc:
  "first_occurrences (xs @ [x]) =
     (if x \<in> set xs then first_occurrences xs else first_occurrences xs @ [x])"
  by (induction xs) (auto simp: set_first_occurrences)

lemma keys_dict_set:
  "keys (dict_set d k v) = (if k \<in> set (keys d) then keys d else keys d @ [k])"
  by (induction d) (force simp: keys_def)+

lemma map_of_dict_set: "map_of (dict_set d k v) = (map_of d)(k \<mapsto> v)"
  by (induction d) (auto simp: fun_eq_iff)

lemma dict_set_absent: "k \<notin> set (keys d) \<Longrightarrow> dict_set d k v = d @ [(k, v)]"
  by (induction d) (auto simp: keys_def)

lemma values_of_distinct:
  "distinct (keys d) \<Longrightarrow> values_of d = map (\<lambda>k. the (map_of d k)) (keys d)"
proof (induction d)
  case Nil
  then show ?case by (simp add: keys_def values_of_def)
next
  case (Cons p d)
  obtain k v where p: "p = (k, v)" by (cases p)
  from Cons.prems have kd: "k \<notin> set (keys d)" and dd: "distinct (keys d)"
    by (simp_all add: p keys_def)
  have "map (\<lambda>k'. the (map_of (p # d) k')) (keys d) = map (\<lambda>k'. the (map_of d k')) (keys d)"
    using kd by (intro map_cong) (auto simp: p)
  then show ?case using Cons.IH [OF dd] by (simp add: p keys_def values_of_def)
qed

lemma filter_ConsD: "filter P xs = y # ys \<Longrightarrow> y \<in> set xs \<and> P y"
  by (induction xs) (auto split: if_splits)

lemma display_args_eq:
  "display_args out (case spec_pos s of Some p \<Rightarrow> p | None \<Rightarrow> (0, 0)) (spec_mode s)
     = entry_args out s"
  by (simp add: display_args_def entry_args_def Let_def split: option.splits)

lemma activate_fail:
  assumes "\<forall>d \<in> set av. Some (name d) \<noteq> spec_output s"
  shows "activate (s # rest) av g =
     ([Stderr (''Output '' @ [CHR 0x22] @ str_output (spec_output s) @ [CHR 0x22]
                @ '' does not exist'')], Inl 2)"
proof -
  have "filter (\<lambda>disp. Some (name disp) = spec_output s) av = []"
    using assms by (simp add: filter_empty_conv)
  then show ?thesis by simp
qed

lemma activate_step:
  assumes "d \<in> set av" and "spec_output s = Some out" and "name d = out"
  shows "\<exists>w. activate (s # rest) av g =
     (case activate rest av (dict_set g (KName out) (entry_args out s)) of
        (evs, r) \<Rightarrow> (w @ evs, r))"
proof -
  have "filter (\<lambda>disp. Some (name disp) = spec_output s) av \<noteq> []"
    using assms by (auto simp: filter_empty_conv)
  then obtain d' ds where "filter (\<lambda>disp. Some (name disp) = spec_output s) av = d' # ds"
    by (cases "filter (\<lambda>disp. Some (name disp) = spec_output s) av") auto
  then show ?thesis using assms(2)
    by (simp add: display_args_eq split: prod.splits)
qed


lemma activate_append:
  "activate (xs @ ys) av g =
     (case activate xs av g of
        (e1, Inl c) \<Rightarrow> (e1, Inl c)
      | (e1, Inr g1) \<Rightarrow> (case activate ys av g1 of (e2, r) \<Rightarrow> (e1 @ e2, r)))"
  by (induction xs arbitrary: g)
     (auto split: prod.splits sum.splits list.splits option.splits)

lemma activate_single:
  assumes "activate [s] av g = (evs, Inr g')"
  shows "\<exists>out. spec_output s = Some out \<and> out \<in> name ` set av
        \<and> g' = dict_set g (KName out) (entry_args out s)"
proof (cases "\<forall>d \<in> set av. Some (name d) \<noteq> spec_output s")
  case True
  from assms show ?thesis by (simp only: activate_fail [OF True]) simp
next
  case False
  then obtain d out where d: "d \<in> set av" "spec_output s = Some out" "name d = out"
    by (cases "spec_output s") auto
  obtain w where "activate [s] av g =
        (case activate [] av (dict_set g (KName out) (entry_args out s)) of
           (evs, r) \<Rightarrow> (w @ evs, r))"
    using activate_step [OF d] by blast
  with assms have "g' = dict_set g (KName out) (entry_args out s)" by simp
  with d show ?thesis by blast
qed

lemma activate_snoc:
  assumes "activate (p @ [s]) av g = (evs, Inr g')"
  shows "\<exists>e1 g1 out. activate p av g = (e1, Inr g1) \<and> spec_output s = Some out
           \<and> out \<in> name ` set av \<and> g' = dict_set g1 (KName out) (entry_args out s)"
proof -
  obtain e1 r1 where a1: "activate p av g = (e1, r1)" by (cases "activate p av g")
  obtain e2 r2 where a2: "activate [s] av (projr r1) = (e2, r2)"
    by (cases "activate [s] av (projr r1)")
  show ?thesis
  proof (cases r1)
    case (Inl c)
    with assms a1 show ?thesis by (simp add: activate_append)
  next
    case (Inr g1)
    with assms a1 a2 have "r2 = Inr g'" by (simp add: activate_append)
    with a2 Inr have "activate [s] av g1 = (e2, Inr g')" by simp
    from activate_single [OF this] a1 Inr show ?thesis by blast
  qed
qed


lemma outputs_of_snoc:
  "spec_output s = Some out \<Longrightarrow> outputs_of (p @ [s]) = outputs_of p @ [out]"
  by (simp add: outputs_of_def List.map_filter_def)

lemma last_entry_snoc:
  "last_entry (p @ [s]) out = (if spec_output s = Some out then s else last_entry p out)"
  by (simp add: last_entry_def)

lemma activate_groups:
  "activate p av [] = (evs, Inr g) \<Longrightarrow>
     (\<forall>s \<in> set p. \<exists>out. spec_output s = Some out \<and> out \<in> name ` set av) \<and>
     keys g = map KName (first_occurrences (outputs_of p)) \<and>
     (\<forall>out \<in> set (outputs_of p).
         map_of g (KName out) = Some (entry_args out (last_entry p out)))"
proof (induction p arbitrary: evs g rule: rev_induct)
  case Nil
  then show ?case by (simp add: keys_def outputs_of_def List.map_filter_def)
next
  case (snoc s p)
  from activate_snoc [OF snoc.prems] obtain e1 g1 out where
    a: "activate p av [] = (e1, Inr g1)" and o: "spec_output s = Some out"
    and av: "out \<in> name ` set av" and g: "g = dict_set g1 (KName out) (entry_args out s)"
    by blast
  note IH = snoc.IH [OF a]
  have 1: "\<forall>s' \<in> set (p @ [s]). \<exists>out. spec_output s' = Some out \<and> out \<in> name ` set av"
    using IH o av by auto
  have 2: "keys g = map KName (first_occurrences (outputs_of (p @ [s])))"
    using IH by (auto simp: g keys_dict_set outputs_of_snoc [OF o] first_occurrences_snoc
        set_first_occurrences)
  have 3: "\<forall>out' \<in> set (outputs_of (p @ [s])).
         map_of g (KName out') = Some (entry_args out' (last_entry (p @ [s]) out'))"
    using IH by (auto simp: g map_of_dict_set outputs_of_snoc [OF o] last_entry_snoc o)
  from 1 2 3 show ?case by blast
qed

lemma activate_values:
  assumes "activate p av [] = (evs, Inr g)"
  shows "values_of g =
    map (\<lambda>out. entry_args out (last_entry p out)) (first_occurrences (outputs_of p))"
proof -
  note G = activate_groups [OF assms]
  have d: "distinct (keys g)"
    using G by (simp add: distinct_map distinct_first_occurrences inj_on_def)
  have "values_of g = map (\<lambda>k. the (map_of g k)) (keys g)"
    by (rule values_of_distinct [OF d])
  also have "\<dots> = map (\<lambda>out. the (map_of g (KName out))) (first_occurrences (outputs_of p))"
    using G by (simp add: comp_def)
  also have "\<dots> = map (\<lambda>out. entry_args out (last_entry p out))
                       (first_occurrences (outputs_of p))"
    using G by (intro map_cong) (auto simp: set_first_occurrences)
  finally show ?thesis .
qed

lemma turn_off_eq:
  "distinct (map obj_id av) \<Longrightarrow>
   \<forall>d \<in> set av. KDevice (obj_id d) \<notin> set (keys g) \<Longrightarrow>
   turn_off av g =
     g @ map (\<lambda>d. (KDevice (obj_id d), [''--output'', name d, ''--off'']))
           (filter (\<lambda>d. KName (name d) \<notin> set (keys g)) av)"
proof (induction av arbitrary: g)
  case Nil
  show ?case by simp
next
  case (Cons d av)
  show ?case
  proof (cases "KName (name d) \<in> set (keys g)")
    case True
    with Cons show ?thesis by simp
  next
    case False
    let ?g = "g @ [(KDevice (obj_id d), [''--output'', name d, ''--off''])]"
    have s: "dict_set g (KDevice (obj_id d)) [''--output'', name d, ''--off''] = ?g"
      using Cons.prems by (intro dict_set_absent) simp
    have k: "keys ?g = keys g @ [KDevice (obj_id d)]" by (simp add: keys_def)
    have "turn_off av ?g = ?g @ map (\<lambda>d. (KDevice (obj_id d), [''--output'', name d, ''--off'']))
           (filter (\<lambda>d. KName (name d) \<notin> set (keys ?g)) av)"
    proof (rule Cons.IH)
      show "distinct (map obj_id av)" using Cons.prems by simp
      show "\<forall>d' \<in> set av. KDevice (obj_id d') \<notin> set (keys ?g)"
      proof
        fix d' assume d': "d' \<in> set av"
        from Cons.prems have "obj_id d \<notin> obj_id ` set av" by simp
        with d' have "obj_id d' \<noteq> obj_id d" by (metis imageI)
        moreover from Cons.prems d' have "KDevice (obj_id d') \<notin> set (keys g)" by simp
        ultimately show "KDevice (obj_id d') \<notin> set (keys ?g)" by (simp add: k)
      qed
    qed
    then show ?thesis using False by (simp add: s k)
  qed
qed

lemma foldl_append_concat: "foldl (\<lambda>args arg_group. args @ arg_group) a xs = a @ concat xs"
  by (induction xs arbitrary: a) auto


lemma xrandr_args_eq:
  "xrandr_args g dry_run =
     ''xrandr'' # concat (values_of g) @ (if dry_run then [''--dryrun''] else [])"
  by (simp add: xrandr_args_def foldl_append_concat)

lemma build_success:
  assumes "build_arg_groups p av = (evs, Inr g)" and "distinct (map obj_id av)"
  shows "\<exists>ga. activate p av [] = (evs, Inr ga) \<and> ga \<noteq> [] \<and>
     g = ga @ map (\<lambda>d. (KDevice (obj_id d), [''--output'', name d, ''--off'']))
           (filter (\<lambda>d. name d \<notin> set (outputs_of p)) av)"
proof -
  obtain e r where a: "activate p av [] = (e, r)" by (cases "activate p av []")
  from assms(1) a obtain ga where r: "r = Inr ga"
    by (cases r) (auto simp: build_arg_groups_def)
  from assms(1) a r have ne: "ga \<noteq> []" and e: "e = evs" and g: "g = turn_off av ga"
    by (auto simp: build_arg_groups_def split: if_splits)
  note G = activate_groups [OF a [unfolded r]]
  have k: "\<forall>d \<in> set av. KDevice (obj_id d) \<notin> set (keys ga)"
    using G by auto
  have f: "filter (\<lambda>d. KName (name d) \<notin> set (keys ga)) av
         = filter (\<lambda>d. name d \<notin> set (outputs_of p)) av"
    using G by (intro filter_cong) (auto simp: set_first_occurrences)
  show ?thesis using a r ne e g turn_off_eq [OF assms(2) k] f by simp
qed


lemma build_values:
  assumes "build_arg_groups p av = (evs, Inr g)" and "distinct (map obj_id av)"
  shows "values_of g = activation_groups p @ off_groups p av"
proof -
  from build_success [OF assms] obtain ga where
    a: "activate p av [] = (evs, Inr ga)" and
    g: "g = ga @ map (\<lambda>d. (KDevice (obj_id d), [''--output'', name d, ''--off'']))
           (filter (\<lambda>d. name d \<notin> set (outputs_of p)) av)"
    by blast
  have "values_of g = values_of ga @ off_groups p av"
    by (simp add: g values_of_def off_groups_def comp_def)
  then show ?thesis by (simp add: activate_values [OF a] activation_groups_def)
qed

lemma command_line:
  assumes "build_arg_groups p av = (evs, Inr g)" and "distinct (map obj_id av)"
  shows "xrandr_args g dry_run = command_line_spec p av dry_run"
  by (simp add: xrandr_args_eq build_values [OF assms] command_line_spec_def)

lemma scan_lines_Cons_cases:
  assumes "scan_lines (line # rest) D nd fresh = Inr r"
  obtains
    (screen) "startswith line ''Screen''" "scan_lines rest D nd fresh = Inr r"
  | (header) nm st tl where
      "\<not> startswith line ''Screen''" "\<not> startswith line '' ''"
      "split line = nm # st # tl"
      "scan_lines rest (D @ (case nd of Some d \<Rightarrow> [d] | None \<Rightarrow> []))
         (Some (OutputDevice_init fresh nm (st = ''connected''))) (Suc fresh) = Inr r"
  | (mode) word tl d width height where
      "\<not> startswith line ''Screen''" "startswith line '' ''"
      "split line = word # tl" "nd = Some d"
      "split_on CHR ''x'' word = [width, height]"
      "scan_lines rest D (Some (add_mode d width height)) fresh = Inr r"
proof (cases "startswith line ''Screen''")
  case True
  with assms screen show ?thesis by simp
next
  case notscreen: False
  show ?thesis
  proof (cases "startswith line '' ''")
    case False
    from assms notscreen False obtain nm st tl where sp: "split line = nm # st # tl"
      by (auto split: list.splits)
    have D: "(case nd of Some d \<Rightarrow> D @ [d] | None \<Rightarrow> D)
               = D @ (case nd of Some d \<Rightarrow> [d] | None \<Rightarrow> [])"
      by (simp split: option.splits)
    have "scan_lines rest (D @ (case nd of Some d \<Rightarrow> [d] | None \<Rightarrow> []))
         (Some (OutputDevice_init fresh nm (st = ''connected''))) (Suc fresh) = Inr r"
      using assms notscreen False sp by (simp add: D)
    with notscreen False sp header show ?thesis by blast
  next
    case True
    from assms notscreen True obtain word tl where sp: "split line = word # tl"
      by (auto split: list.splits)
    from assms notscreen True sp obtain d where nd: "nd = Some d"
      by (auto split: option.splits)
    from assms notscreen True sp nd obtain width height where
      so: "split_on CHR ''x'' word = [width, height]"
      by (auto split: list.splits)
    have "scan_lines rest D (Some (add_mode d width height)) fresh = Inr r"
      using assms notscreen True sp nd so by simp
    with notscreen True sp nd so mode show ?thesis by blast
  qed
qed

lemma scan_lines_distinct:
  "scan_lines ls D nd fresh = Inr (D', nd') \<Longrightarrow>
   distinct (map obj_id (D @ (case nd of Some d \<Rightarrow> [d] | None \<Rightarrow> []))) \<Longrightarrow>
   \<forall>d \<in> set (D @ (case nd of Some d \<Rightarrow> [d] | None \<Rightarrow> [])). obj_id d < fresh \<Longrightarrow>
   distinct (map obj_id (D' @ (case nd' of Some d \<Rightarrow> [d] | None \<Rightarrow> [])))"
proof (induction ls arbitrary: D nd fresh)
  case Nil
  then show ?case by simp
next
  case (Cons line rest)
  from Cons.prems(1) show ?case
  proof (cases rule: scan_lines_Cons_cases)
    case screen
    from Cons.IH [OF screen(2) Cons.prems(2,3)] show ?thesis .
  next
    case (header nm st tl)
    define Dn where "Dn = D @ (case nd of Some d \<Rightarrow> [d] | None \<Rightarrow> [])"
    let ?n = "OutputDevice_init fresh nm (st = ''connected'')"
    have i: "obj_id ?n = fresh" by (simp add: OutputDevice_init_def)
    have p2: "distinct (map obj_id Dn)" and p3: "\<forall>d \<in> set Dn. obj_id d < fresh"
      using Cons.prems(2,3) by (simp_all only: Dn_def)
    have "fresh \<notin> obj_id ` set Dn" using p3 by (metis imageE less_irrefl)
    then have d1: "distinct (map obj_id (Dn @ (case Some ?n of Some d \<Rightarrow> [d] | None \<Rightarrow> [])))"
      using p2 by (simp add: i)
    have d2: "\<forall>d \<in> set (Dn @ (case Some ?n of Some d \<Rightarrow> [d] | None \<Rightarrow> [])).
                obj_id d < Suc fresh"
      using p3 by (auto simp: i less_Suc_eq)
    from Cons.IH [OF header(4) [folded Dn_def] d1 d2] show ?thesis .
  next
    case (mode word tl d width height)
    have d1: "distinct (map obj_id (D @ (case Some (add_mode d width height) of
                 Some d \<Rightarrow> [d] | None \<Rightarrow> [])))"
      using Cons.prems(2) mode(4) by (simp add: add_mode_def)
    have d2: "\<forall>x \<in> set (D @ (case Some (add_mode d width height) of
                 Some d \<Rightarrow> [d] | None \<Rightarrow> [])). obj_id x < fresh"
      using Cons.prems(3) mode(4) by (simp add: add_mode_def)
    from Cons.IH [OF mode(6) d1 d2] show ?thesis .
  qed
qed

lemma parse_displays_distinct:
  assumes "parse_displays ls = Inr av"
  shows "distinct (map obj_id av)"
proof -
  from assms obtain D nd where s: "scan_lines ls [] None 0 = Inr (D, nd)"
    and av: "av = (case nd of Some d \<Rightarrow> D @ [d] | None \<Rightarrow> D)"
    by (auto simp: parse_displays_def split: sum.splits)
  have "distinct (map obj_id (D @ (case nd of Some d \<Rightarrow> [d] | None \<Rightarrow> [])))"
    by (rule scan_lines_distinct [OF s]) simp_all
  then show ?thesis by (simp add: av split: option.splits)
qed

subsection \<open>Traces and results of a run\<close>

lemma activate_events:
  "e \<in> set (fst (activate p av g)) \<Longrightarrow> \<exists>m. e = Stderr m"
proof (induction p arbitrary: g e)
  case Nil
  then show ?case by simp
next
  case (Cons s p)
  show ?case
  proof (cases "\<forall>d \<in> set av. Some (name d) \<noteq> spec_output s")
    case True
    from Cons.prems show ?thesis by (simp only: activate_fail [OF True]) simp
  next
    case False
    then obtain d out where d: "d \<in> set av" "spec_output s = Some out" "name d = out"
      by (cases "spec_output s") auto
    have f: "filter (\<lambda>disp. Some (name disp) = spec_output s) av \<noteq> []"
      using d by (auto simp: filter_empty_conv)
    then obtain d' ds where f': "filter (\<lambda>disp. Some (name disp) = spec_output s) av = d' # ds"
      by (cases "filter (\<lambda>disp. Some (name disp) = spec_output s) av") auto
    obtain evs r where a: "activate p av (dict_set g (KName out) (entry_args out s)) = (evs, r)"
      by (cases "activate p av (dict_set g (KName out) (entry_args out s))")
    have "fst (activate (s # p) av g) =
       (if \<not> is_connected d' then [Stderr (''warning: '' @ out @ '' is not connected'')] else [])
        @ evs"
      using f' d(2) a by (simp add: display_args_eq)
    with Cons.prems have "e \<in> set evs \<or> (\<exists>m. e = Stderr m)" by (auto split: if_splits)
    with Cons.IH [of e "dict_set g (KName out) (entry_args out s)"] a show ?thesis by auto
  qed
qed

lemma build_events:
  "e \<in> set (fst (build_arg_groups p av)) \<Longrightarrow> \<exists>m. e = Stderr m"
  using activate_events [of e p av "[]"]
  by (cases "activate p av []") (auto simp: build_arg_groups_def split: sum.splits if_splits)

lemma set_display_setup_trace:
  assumes "load_display_setups w f = Inr ds" and "dict_get ds n = Some profile"
    and "query_lines w = Inr ls" and "parse_displays ls = Inr av"
    and "build_arg_groups profile av = (evs, r)"
  shows "fst (set_display_setup w n f dry_run) =
     [Stdout (''Activating display setup '' @ n), Query] @ evs @
     (case r of
        Inl code \<Rightarrow> []
      | Inr g \<Rightarrow>
          (if dry_run
           then [Stdout (''command: '' @ join '' '' (xrandr_args g dry_run))] else [])
          @ [Apply (xrandr_args g dry_run)])"
  using assms
  by (simp add: set_display_setup_def get_available_displays_def Let_def
      split: sum.splits)

lemma activate_missing:
  "\<exists>s \<in> set p. \<forall>d \<in> set av. Some (name d) \<noteq> spec_output s \<Longrightarrow>
     snd (activate p av g) = Inl 2"
proof (induction p arbitrary: g)
  case Nil
  then show ?case by simp
next
  case (Cons s p)
  show ?case
  proof (cases "\<forall>d \<in> set av. Some (name d) \<noteq> spec_output s")
    case True
    show ?thesis by (simp only: activate_fail [OF True]) simp
  next
    case False
    then obtain d out where d: "d \<in> set av" "spec_output s = Some out" "name d = out"
      by (cases "spec_output s") auto
    obtain w where w: "activate (s # p) av g =
        (case activate p av (dict_set g (KName out) (entry_args out s)) of
           (evs, r) \<Rightarrow> (w @ evs, r))"
      using activate_step [OF d] by blast
    from Cons.prems False have "\<exists>s \<in> set p. \<forall>d \<in> set av. Some (name d) \<noteq> spec_output s"
      by auto
    from Cons.IH [OF this, of "dict_set g (KName out) (entry_args out s)"] w
    show ?thesis by (simp split: prod.splits)
  qed
qed

lemma build_missing:
  assumes "\<exists>s \<in> set p. \<forall>d \<in> set av. Some (name d) \<noteq> spec_output s"
  shows "snd (build_arg_groups p av) = Inl 2"
  using activate_missing [OF assms, of "[]"]
  by (cases "activate p av []") (simp add: build_arg_groups_def)

lemma set_display_setup_code:
  assumes "load_display_setups w f = Inr ds" and "dict_get ds n = Some profile"
    and "query_lines w = Inr ls" and "parse_displays ls = Inr av"
    and "build_arg_groups profile av = (evs, Inl code)"
  shows "snd (set_display_setup w n f dry_run) = Inr (Code code)"
  using assms
  by (simp add: set_display_setup_def get_available_displays_def Let_def)

subsection \<open>Groups of single entries and probes of equal content\<close>

lemma activate_preserves:
  "activate p av g = (e, Inr g') \<Longrightarrow> \<forall>t \<in> set p. spec_output t \<noteq> Some out \<Longrightarrow>
     map_of g' (KName out) = map_of g (KName out)"
proof (induction p arbitrary: g e)
  case Nil
  then show ?case by simp
next
  case (Cons s p)
  show ?case
  proof (cases "\<forall>d \<in> set av. Some (name d) \<noteq> spec_output s")
    case True
    from Cons.prems(1) show ?thesis by (simp only: activate_fail [OF True]) simp
  next
    case False
    then obtain d out' where d: "d \<in> set av" "spec_output s = Some out'" "name d = out'"
      by (cases "spec_output s") auto
    obtain w where w: "activate (s # p) av g =
        (case activate p av (dict_set g (KName out') (entry_args out' s)) of
           (evs, r) \<Rightarrow> (w @ evs, r))"
      using activate_step [OF d] by blast
    obtain e1 where a: "activate p av (dict_set g (KName out') (entry_args out' s)) = (e1, Inr g')"
      using Cons.prems(1) w by (auto split: prod.splits)
    from Cons.prems(2) d have ne: "out' \<noteq> out" by auto
    from Cons.IH [OF a] Cons.prems(2) ne show ?thesis by (simp add: map_of_dict_set)
  qed
qed

lemma map_of_turn_off: "map_of (turn_off av g) (KName n) = map_of g (KName n)"
  by (induction av arbitrary: g) (simp_all add: map_of_dict_set)

lemma filter_same_attributes:
  "map (\<lambda>d. (name d, is_connected d, modes d)) av1
     = map (\<lambda>d. (name d, is_connected d, modes d)) av2 \<Longrightarrow>
   map (\<lambda>d. (name d, is_connected d, modes d)) (filter (\<lambda>d. Q (name d)) av1)
     = map (\<lambda>d. (name d, is_connected d, modes d)) (filter (\<lambda>d. Q (name d)) av2)"
proof (induction av1 arbitrary: av2)
  case Nil
  then show ?case by simp
next
  case (Cons d av1)
  then obtain d' av2' where av2: "av2 = d' # av2'" by (cases av2) auto
  with Cons.prems have "name d = name d'" "is_connected d = is_connected d'"
    "modes d = modes d'"
    and r: "map (\<lambda>d. (name d, is_connected d, modes d)) av1
          = map (\<lambda>d. (name d, is_connected d, modes d)) av2'"
    by simp_all
  with Cons.IH [OF r] show ?case by (simp add: av2)
qed

lemma activate_same_attributes:
  assumes "map (\<lambda>d. (name d, is_connected d, modes d)) av1
     = map (\<lambda>d. (name d, is_connected d, modes d)) av2"
  shows "activate p av1 g = activate p av2 g"
proof (induction p arbitrary: g)
  case Nil
  show ?case by simp
next
  case (Cons s p)
  let ?m1 = "filter (\<lambda>d. Some (name d) = spec_output s) av1"
  let ?m2 = "filter (\<lambda>d. Some (name d) = spec_output s) av2"
  have m: "map (\<lambda>d. (name d, is_connected d, modes d)) ?m1
         = map (\<lambda>d. (name d, is_connected d, modes d)) ?m2"
    by (rule filter_same_attributes [OF assms, of "\<lambda>n. Some n = spec_output s"])
  show ?case
  proof (cases ?m1)
    case Nil
    with m have "?m2 = []" by simp
    with Nil show ?thesis by simp
  next
    case c1: (Cons d1 ds1)
    with m obtain d2 ds2 where c2: "?m2 = d2 # ds2" by (cases ?m2) auto
    from m c1 c2 have ic: "is_connected d1 = is_connected d2" by simp
    show ?thesis
    proof (cases "spec_output s")
      case None
      with c1 c2 show ?thesis by simp
    next
      case (Some out)
      with c1 c2 ic Cons.IH show ?thesis by simp
    qed
  qed
qed

lemma off_groups_names:
  "off_groups p av =
     map (\<lambda>n. [''--output'', n, ''--off''])
       (filter (\<lambda>n. n \<notin> set (outputs_of p)) (map name av))"
  by (simp add: off_groups_def filter_map comp_def)

subsection \<open>The scan of the query output\<close>

lemma scan_lines_headers:
  "scan_lines ls D nd fresh = Inr r \<Longrightarrow> l \<in> set ls \<Longrightarrow> device_line l \<Longrightarrow>
     2 \<le> length (split l)"
proof (induction ls arbitrary: D nd fresh)
  case Nil
  then show ?case by simp
next
  case (Cons line rest)
  from Cons.prems(1) show ?case
  proof (cases rule: scan_lines_Cons_cases)
    case screen
    with Cons.prems(2,3) have "l \<in> set rest" by (auto simp: device_line_def)
    from Cons.IH [OF screen(2) this Cons.prems(3)] show ?thesis .
  next
    case (header nm st tl)
    show ?thesis
    proof (cases "l = line")
      case True
      with header(3) show ?thesis by simp
    next
      case False
      with Cons.prems(2) have "l \<in> set rest" by simp
      from Cons.IH [OF header(4) this Cons.prems(3)] show ?thesis .
    qed
  next
    case (mode word tl d width height)
    with Cons.prems(2,3) have "l \<in> set rest" by (auto simp: device_line_def)
    from Cons.IH [OF mode(6) this Cons.prems(3)] show ?thesis .
  qed
qed

lemma scan_lines_indented:
  "scan_lines ls D nd fresh = Inr r \<Longrightarrow> ls = pre @ l # post \<Longrightarrow> space_indented_line l \<Longrightarrow>
     nd \<noteq> None \<or> (\<exists>h \<in> set pre. device_line h \<and> 2 \<le> length (split h))"
proof (induction ls arbitrary: D nd fresh pre)
  case Nil
  then show ?case by simp
next
  case (Cons line rest)
  from Cons.prems(1) show ?case
  proof (cases rule: scan_lines_Cons_cases)
    case screen
    show ?thesis
    proof (cases pre)
      case Nil
      with Cons.prems(2,3) screen(1) show ?thesis by (simp add: space_indented_line_def)
    next
      case (Cons a pre')
      with Cons.prems(2) have "rest = pre' @ l # post" by simp
      from Cons.IH [OF screen(2) this Cons.prems(3)] Cons show ?thesis by auto
    qed
  next
    case (header nm st tl)
    show ?thesis
    proof (cases pre)
      case Nil
      with Cons.prems(2,3) header(2) show ?thesis by (simp add: space_indented_line_def)
    next
      case (Cons a pre')
      with Cons.prems(2) have "a = line" by simp
      with header(1,2,3) have "device_line a \<and> 2 \<le> length (split a)"
        by (simp add: device_line_def)
      with Cons show ?thesis by auto
    qed
  next
    case (mode word tl d width height)
    then show ?thesis by simp
  qed
qed

lemma parse_displays_well_formed:
  assumes "parse_displays ls = Inr ds"
  shows "well_formed_query ls"
proof -
  from assms obtain r where s: "scan_lines ls [] None 0 = Inr r"
    by (auto simp: parse_displays_def split: sum.splits)
  show ?thesis
    unfolding well_formed_query_def
    using scan_lines_headers [OF s] scan_lines_indented [OF s] by blast
qed

lemma scan_lines_records:
  "scan_lines ls D nd fresh = Inr (D', nd') \<Longrightarrow>
   map (\<lambda>d. (name d, is_connected d, modes d))
       (D' @ (case nd' of Some d \<Rightarrow> [d] | None \<Rightarrow> []))
   = map (\<lambda>d. (name d, is_connected d, modes d)) D
     @ (case nd of Some d \<Rightarrow> [(name d, is_connected d, modes d @ modes_after ls)]
                 | None \<Rightarrow> [])
     @ records_spec ls"
proof (induction ls arbitrary: D nd fresh)
  case Nil
  then show ?case by (auto split: option.splits)
next
  case (Cons line rest)
  from Cons.prems show ?case
  proof (cases rule: scan_lines_Cons_cases)
    case screen
    from Cons.IH [OF screen(2)] screen(1) show ?thesis by (simp split: option.splits)
  next
    case (header nm st tl)
    from Cons.IH [OF header(4)] header(1,2,3) show ?thesis
      by (simp add: OutputDevice_init_def split: option.splits)
  next
    case (mode word tl d width height)
    from Cons.IH [OF mode(6)] mode(1-5) show ?thesis
      by (simp add: add_mode_def first_word_def)
  qed
qed

lemma scan_lines_pairs:
  "scan_lines ls D nd fresh = Inr (D', nd') \<Longrightarrow>
   \<forall>d \<in> set (D @ (case nd of Some d \<Rightarrow> [d] | None \<Rightarrow> [])).
      \<forall>m \<in> set (modes d). length m = 2 \<Longrightarrow>
   \<forall>d \<in> set (D' @ (case nd' of Some d \<Rightarrow> [d] | None \<Rightarrow> [])).
      \<forall>m \<in> set (modes d). length m = 2"
proof (induction ls arbitrary: D nd fresh)
  case Nil
  then show ?case by simp
next
  case (Cons line rest)
  from Cons.prems(1) show ?case
  proof (cases rule: scan_lines_Cons_cases)
    case screen
    from Cons.IH [OF screen(2) Cons.prems(2)] show ?thesis .
  next
    case (header nm st tl)
    have "\<forall>d \<in> set ((D @ (case nd of Some d \<Rightarrow> [d] | None \<Rightarrow> []))
             @ (case Some (OutputDevice_init fresh nm (st = ''connected'')) of
                  Some d \<Rightarrow> [d] | None \<Rightarrow> [])).
            \<forall>m \<in> set (modes d). length m = 2"
      using Cons.prems(2) by (auto simp: OutputDevice_init_def)
    from Cons.IH [OF header(4) this] show ?thesis .
  next
    case (mode word tl d width height)
    have "\<forall>x \<in> set (D @ (case Some (add_mode d width height) of
                  Some d \<Rightarrow> [d] | None \<Rightarrow> [])).
            \<forall>m \<in> set (modes x). length m = 2"
      using Cons.prems(2) mode(4) by (auto simp: add_mode_def)
    from Cons.IH [OF mode(6) this] show ?thesis .
  qed
qed

subsection \<open>The scenario of the specification\<close>

text \<open>
  Claim C4, evaluated where the code departs from it. For the setup
  \<^verbatim>\<open>[{"output":"eDP-1","mode":[1920,1080],"pos":[0,0]}, {"output":"HDMI-1"}]\<close> and the
  probed devices eDP-1 (connected), HDMI-1 (connected) and VGA-1 (disconnected),
  whatever their modes and identities, the builder prints nothing and produces the
  three token lists of the scenario in this order, the two activation groups under the
  names of their outputs. The off group, however, is stored under the device object of
  VGA-1 (line 128), so the mapping has no entry for the name \<^verbatim>\<open>VGA-1\<close> and is not the
  mapping of the claim.
\<close>

theorem scenario_home_groups:
  "build_arg_groups
     [\<lparr>spec_output = Some ''eDP-1'', spec_mode = Some (1920, 1080), spec_pos = Some (0, 0)\<rparr>,
      \<lparr>spec_output = Some ''HDMI-1'', spec_mode = None, spec_pos = None\<rparr>]
     [\<lparr>obj_id = i, name = ''eDP-1'', is_connected = True, modes = m1\<rparr>,
      \<lparr>obj_id = j, name = ''HDMI-1'', is_connected = True, modes = m2\<rparr>,
      \<lparr>obj_id = k, name = ''VGA-1'', is_connected = False, modes = m3\<rparr>]
   = ([], Inr [(KName ''eDP-1'',
                [''--output'', ''eDP-1'', ''--pos'', ''0x0'', ''--mode'', ''1920x1080'']),
               (KName ''HDMI-1'', [''--output'', ''HDMI-1'', ''--pos'', ''0x0'', ''--auto'']),
               (KDevice k, [''--output'', ''VGA-1'', ''--off''])])
   \<and> dict_get [(KName ''eDP-1'',
                [''--output'', ''eDP-1'', ''--pos'', ''0x0'', ''--mode'', ''1920x1080'']),
               (KName ''HDMI-1'', [''--output'', ''HDMI-1'', ''--pos'', ''0x0'', ''--auto'']),
               (KDevice k, [''--output'', ''VGA-1'', ''--off''])] (KName ''VGA-1'') = None"
  by (simp add: build_arg_groups_def display_args_def str_int_def str_nat.simps digit_def
      keys_def dict_get_def)

subsection \<open>Exit status\<close>

text \<open>
  Claim C2, evaluated where the code departs from it. The file defines the setup
  \<^verbatim>\<open>home\<close> only and the script is run for the setup \<^verbatim>\<open>work\<close>:
  \<^verbatim>\<open>set_display_setup\<close> prints the error and returns 1, but the script drops that value,
  so the process ends with status 0, not 1.
\<close>

theorem unknown_setup_exit_status:
  "set_display_setup
      \<lparr>read_json = \<lambda>f. Inr [(''home'',
                 [\<lparr>spec_output = Some ''eDP-1'', spec_mode = None, spec_pos = None\<rparr>])],
       query_lines = Inr [''eDP-1 connected''], apply_returncode = \<lambda>a. Inr 0\<rparr>
      ''work'' ''displaysetups.json'' False
    = ([Stderr ''Invalid display setup name: work''], Inr (Code 1))
   \<and> main
      \<lparr>read_json = \<lambda>f. Inr [(''home'',
                 [\<lparr>spec_output = Some ''eDP-1'', spec_mode = None, spec_pos = None\<rparr>])],
       query_lines = Inr [''eDP-1 connected''], apply_returncode = \<lambda>a. Inr 0\<rparr>
      \<lparr>arg_setup = Some ''work'', arg_jsonfile = ''displaysetups.json'',
       arg_dry_run = False, arg_list_setups = False\<rparr>
    = ([Stderr ''Invalid display setup name: work''], 0)"
  by (simp add: set_display_setup_def main_def load_display_setups_def json_object_def
      dict_get_def)

subsection \<open>Listing the setups\<close>

text \<open>
  Claim C6. When no setup is named on the command line, the trace of the script holds
  no run of the external utility, neither the query nor the apply run; and when the
  file can be read, the script prints the header naming the file and then the names of
  the setups joined by newlines, one name per line, and ends with status 0.
\<close>

theorem list_mode_runs_nothing:
  assumes "arg_setup a = None"
  shows "Query \<notin> set (fst (main w a)) \<and> (\<forall>xs. Apply xs \<notin> set (fst (main w a)))
     \<and> (\<forall>members. read_json w (arg_jsonfile a) = Inr members \<longrightarrow>
           main w a =
             ([Stdout (''The following setups are defined in '' @ arg_jsonfile a @ '':''),
               Stdout (join [CHR 0x0A] (keys (json_object members)))], 0))"
  using assms
  by (auto simp: main_def list_display_setups_def load_display_setups_def split: sum.splits)

theorem list_mode_runs_nothing_witness:
  "main \<lparr>read_json = \<lambda>f. Inr [(''home'', []), (''work'', []), (''home'', [])],
         query_lines = Inr [''eDP-1 connected''], apply_returncode = \<lambda>a. Inr 0\<rparr>
        \<lparr>arg_setup = None, arg_jsonfile = ''d.json'', arg_dry_run = False,
         arg_list_setups = False\<rparr>
   = ([Stdout ''The following setups are defined in d.json:'',
       Stdout (''home'' @ [CHR 0x0A] @ ''work'')], 0)"
  using list_mode_runs_nothing
    [of "\<lparr>arg_setup = None, arg_jsonfile = ''d.json'', arg_dry_run = False,
           arg_list_setups = False\<rparr>"
        "\<lparr>read_json = \<lambda>f. Inr [(''home'', []), (''work'', []), (''home'', [])],
           query_lines = Inr [''eDP-1 connected''], apply_returncode = \<lambda>a. Inr 0\<rparr>"]
  by (simp add: json_object_def keys_def)

subsection \<open>Unknown outputs\<close>

text \<open>
  Claim C3. Take a run in which the file loads, the setup is found and the query output
  parses. If some entry of the setup names an output that no probed device has (an
  entry without \<^verbatim>\<open>"output"\<close> included), then the builder returns the code 2 and no
  argument groups, \<^verbatim>\<open>set_display_setup\<close> returns 2, and the trace of the run holds no
  apply run of the external utility.
\<close>

theorem unknown_output_aborts:
  assumes "load_display_setups w setups_file = Inr display_setups"
    and "dict_get display_setups setup_name = Some profile"
    and "query_lines w = Inr ls"
    and "parse_displays ls = Inr available_displays"
    and "\<exists>s \<in> set profile. \<forall>d \<in> set available_displays. Some (name d) \<noteq> spec_output s"
  shows "snd (build_arg_groups profile available_displays) = Inl 2
    \<and> snd (set_display_setup w setup_name setups_file dry_run) = Inr (Code 2)
    \<and> (\<forall>xs. Apply xs \<notin> set (fst (set_display_setup w setup_name setups_file dry_run)))"
proof -
  obtain evs r where b: "build_arg_groups profile available_displays = (evs, r)"
    by (cases "build_arg_groups profile available_displays")
  from build_missing [OF assms(5)] b have r: "r = Inl 2" by simp
  have ne: "\<forall>xs. Apply xs \<notin> set evs"
    using build_events [of _ profile available_displays] b by auto
  have "\<forall>xs. Apply xs \<notin> set (fst (set_display_setup w setup_name setups_file dry_run))"
    using ne by (simp add: set_display_setup_trace [OF assms(1-4) b] r)
  moreover have "snd (set_display_setup w setup_name setups_file dry_run) = Inr (Code 2)"
    by (rule set_display_setup_code [OF assms(1-4) b [unfolded r]])
  ultimately show ?thesis using b r by simp
qed

theorem unknown_output_aborts_witness:
  "set_display_setup
      \<lparr>read_json = \<lambda>f. Inr [(''home'',
          [\<lparr>spec_output = Some ''eDP-1'', spec_mode = None, spec_pos = None\<rparr>,
           \<lparr>spec_output = Some ''DP-9'', spec_mode = None, spec_pos = None\<rparr>])],
        query_lines = Inr [''eDP-1 connected'', ''HDMI-1 connected''],
        apply_returncode = \<lambda>a. Inr 0\<rparr> ''home'' ''d.json'' False
    = ([Stdout ''Activating display setup home'', Query,
        Stderr (''Output '' @ [CHR 0x22] @ ''DP-9'' @ [CHR 0x22] @ '' does not exist'')],
       Inr (Code 2))"
proof -
  let ?p = "[\<lparr>spec_output = Some ''eDP-1'', spec_mode = None, spec_pos = None\<rparr>,
             \<lparr>spec_output = Some ''DP-9'', spec_mode = None, spec_pos = None\<rparr>]"
  let ?ls = "[''eDP-1 connected'', ''HDMI-1 connected'']"
  let ?w = "\<lparr>read_json = \<lambda>f. Inr [(''home'', ?p)], query_lines = Inr ?ls,
             apply_returncode = \<lambda>a. Inr 0\<rparr>"
  let ?av = "[\<lparr>obj_id = 0, name = ''eDP-1'', is_connected = True, modes = []\<rparr>,
              \<lparr>obj_id = 1, name = ''HDMI-1'', is_connected = True, modes = []\<rparr>]"
  have h1: "load_display_setups ?w ''d.json'' = Inr [(''home'', ?p)]"
    by (simp add: load_display_setups_def json_object_def)
  have h2: "dict_get [(''home'', ?p)] ''home'' = Some ?p" by (simp add: dict_get_def)
  have h3: "query_lines ?w = Inr ?ls" by simp
  have h4: "parse_displays ?ls = Inr ?av"
    by (simp add: parse_displays_def startswith_def split_def isspace_def
        OutputDevice_init_def)
  have h5: "\<exists>s \<in> set ?p. \<forall>d \<in> set ?av. Some (name d) \<noteq> spec_output s" by simp
  have b: "fst (build_arg_groups ?p ?av)
     = [Stderr (''Output '' @ [CHR 0x22] @ ''DP-9'' @ [CHR 0x22] @ '' does not exist'')]"
    by (simp add: build_arg_groups_def str_output_def)
  from unknown_output_aborts [OF h1 h2 h3 h4 h5, of False]
  have r: "snd (build_arg_groups ?p ?av) = Inl 2"
    and s: "snd (set_display_setup ?w ''home'' ''d.json'' False) = Inr (Code 2)"
    by simp_all
  have "fst (set_display_setup ?w ''home'' ''d.json'' False)
     = [Stdout ''Activating display setup home'', Query,
        Stderr (''Output '' @ [CHR 0x22] @ ''DP-9'' @ [CHR 0x22] @ '' does not exist'')]"
    using set_display_setup_trace [OF h1 h2 h3 h4, of "fst (build_arg_groups ?p ?av)"
        "snd (build_arg_groups ?p ?av)" False] b r by simp
  with s show ?thesis by (simp add: prod_eq_iff)
qed

subsection \<open>The order of the command line\<close>

text \<open>
  Claim C9. Take a run in which the file loads, the setup is found and the query output
  parses. Every command line that the run passes to the external utility is the one
  of \<open>command_line_spec\<close>: \<^verbatim>\<open>xrandr\<close>, then the activation groups in the order in
  which the setup first names their outputs, an output named twice giving one group
  with the content of its last entry, then the off groups in probe order, then
  \<^verbatim>\<open>--dryrun\<close> in a dry run.
\<close>

theorem command_line_order:
  assumes "load_display_setups w setups_file = Inr display_setups"
    and "dict_get display_setups setup_name = Some profile"
    and "query_lines w = Inr ls"
    and "parse_displays ls = Inr available_displays"
    and "Apply args \<in> set (fst (set_display_setup w setup_name setups_file dry_run))"
  shows "args = command_line_spec profile available_displays dry_run"
proof -
  obtain evs r where b: "build_arg_groups profile available_displays = (evs, r)"
    by (cases "build_arg_groups profile available_displays")
  have ne: "Apply args \<notin> set evs" using build_events [of "Apply args" profile available_displays] b
    by auto
  note t = set_display_setup_trace [OF assms(1-4) b, of dry_run]
  show ?thesis
  proof (cases r)
    case (Inl code)
    with assms(5) t ne show ?thesis by simp
  next
    case (Inr g)
    with assms(5) t ne have "args = xrandr_args g dry_run" by (auto split: if_splits)
    then show ?thesis
      using command_line [OF b [unfolded Inr] parse_displays_distinct [OF assms(4)]] by simp
  qed
qed

theorem command_line_order_witness:
  "fst (set_display_setup
      \<lparr>read_json = \<lambda>f. Inr [(''desk'',
          [\<lparr>spec_output = Some ''DP-1'', spec_mode = Some (2560, 1440), spec_pos = None\<rparr>,
           \<lparr>spec_output = Some ''eDP-1'', spec_mode = None, spec_pos = Some (2560, 0)\<rparr>,
           \<lparr>spec_output = Some ''DP-1'', spec_mode = None, spec_pos = Some (0, 200)\<rparr>])],
        query_lines = Inr [''Screen 0: minimum 8 x 8'', ''VGA-1 disconnected'',
                           ''eDP-1 connected primary'', ''   1920x1080 60.00*+'',
                           ''DP-1 connected'', ''HDMI-1 disconnected''],
        apply_returncode = \<lambda>a. Inr 0\<rparr> ''desk'' ''d.json'' False)
    = [Stdout ''Activating display setup desk'', Query,
       Apply [''xrandr'', ''--output'', ''DP-1'', ''--pos'', ''0x200'', ''--auto'',
              ''--output'', ''eDP-1'', ''--pos'', ''2560x0'', ''--auto'',
              ''--output'', ''VGA-1'', ''--off'', ''--output'', ''HDMI-1'', ''--off'']]"
proof -
  let ?p = "[\<lparr>spec_output = Some ''DP-1'', spec_mode = Some (2560, 1440), spec_pos = None\<rparr>,
           \<lparr>spec_output = Some ''eDP-1'', spec_mode = None, spec_pos = Some (2560, 0)\<rparr>,
           \<lparr>spec_output = Some ''DP-1'', spec_mode = None, spec_pos = Some (0, 200)\<rparr>]"
  let ?ls = "[''Screen 0: minimum 8 x 8'', ''VGA-1 disconnected'',
                           ''eDP-1 connected primary'', ''   1920x1080 60.00*+'',
                           ''DP-1 connected'', ''HDMI-1 disconnected'']"
  let ?w = "\<lparr>read_json = \<lambda>f. Inr [(''desk'', ?p)], query_lines = Inr ?ls,
             apply_returncode = \<lambda>a. Inr 0\<rparr>"
  let ?av = "[\<lparr>obj_id = 0, name = ''VGA-1'', is_connected = False, modes = []\<rparr>,
          \<lparr>obj_id = 1, name = ''eDP-1'', is_connected = True, modes = [[''1920'', ''1080'']]\<rparr>,
          \<lparr>obj_id = 2, name = ''DP-1'', is_connected = True, modes = []\<rparr>,
          \<lparr>obj_id = 3, name = ''HDMI-1'', is_connected = False, modes = []\<rparr>]"
  have h1: "load_display_setups ?w ''d.json'' = Inr [(''desk'', ?p)]"
    by (simp add: load_display_setups_def json_object_def)
  have h2: "dict_get [(''desk'', ?p)] ''desk'' = Some ?p" by (simp add: dict_get_def)
  have h3: "query_lines ?w = Inr ?ls" by simp
  have h4: "parse_displays ?ls = Inr ?av"
    by (simp add: parse_displays_def startswith_def split_def isspace_def split_on_def
        OutputDevice_init_def add_mode_def)
  obtain g where b: "build_arg_groups ?p ?av = ([], Inr g)"
    by (simp add: build_arg_groups_def keys_def)
  note t = set_display_setup_trace [OF h1 h2 h3 h4 b, of False]
  then have h5: "Apply (xrandr_args g False)
                   \<in> set (fst (set_display_setup ?w ''desk'' ''d.json'' False))"
    by simp
  have c: "command_line_spec ?p ?av False
    = [''xrandr'', ''--output'', ''DP-1'', ''--pos'', ''0x200'', ''--auto'',
       ''--output'', ''eDP-1'', ''--pos'', ''2560x0'', ''--auto'',
       ''--output'', ''VGA-1'', ''--off'', ''--output'', ''HDMI-1'', ''--off'']"
    by (simp add: command_line_spec_def activation_groups_def off_groups_def outputs_of_def
      List.map_filter_def last_entry_def entry_args_def str_int_def str_nat.simps digit_def)
  from command_line_order [OF h1 h2 h3 h4 h5] c t show ?thesis by simp
qed

subsection \<open>The argument group of an entry\<close>

text \<open>
  Claim C5. Take any entry \<open>s\<close> of a setup that the loop of the builder processes, that
  is, the loop runs through the entries before \<open>s\<close> and through \<open>s\<close> without returning.
  Then \<open>s\<close> names an output, and the group stored for that output when \<open>s\<close> has been
  processed is \<^verbatim>\<open>--output\<close>, the name, \<^verbatim>\<open>--pos\<close> and the position \<^verbatim>\<open>XxY\<close> in decimal
  (the origin when the entry gives no position), followed by \<^verbatim>\<open>--mode\<close> and \<^verbatim>\<open>WxH\<close>
  when the entry gives a mode and by \<^verbatim>\<open>--auto\<close> otherwise. It is still the group of
  that output in the result of the builder, whatever entries follow, unless one of them
  names the same output.
\<close>

theorem entry_group_tokens:
  assumes "activate (pre @ [s]) available_displays [] = (evs, Inr arg_groups)"
  shows "\<exists>out x y.
     spec_output s = Some out \<and>
     (x, y) = (case spec_pos s of Some p \<Rightarrow> p | None \<Rightarrow> (0, 0)) \<and>
     (let tokens = [''--output'', out, ''--pos'', str_int x @ ''x'' @ str_int y]
                     @ (case spec_mode s of
                          Some (w, h) \<Rightarrow> [''--mode'', str_int w @ ''x'' @ str_int h]
                        | None \<Rightarrow> [''--auto''])
      in dict_get arg_groups (KName out) = Some tokens \<and>
         (\<forall>post evs' groups.
            build_arg_groups (pre @ s # post) available_displays = (evs', Inr groups)
              \<and> Some out \<notin> spec_output ` set post \<longrightarrow>
            dict_get groups (KName out) = Some tokens))"
proof -
  from activate_snoc [OF assms] obtain g0 out where
    o: "spec_output s = Some out"
    and g1: "arg_groups = dict_set g0 (KName out) (entry_args out s)"
    by blast
  obtain x y where xy: "(x, y) = (case spec_pos s of Some p \<Rightarrow> p | None \<Rightarrow> (0, 0))"
    by (cases "case spec_pos s of Some p \<Rightarrow> p | None \<Rightarrow> (0, 0)") auto
  define tokens where "tokens = [''--output'', out, ''--pos'', str_int x @ ''x'' @ str_int y]
                     @ (case spec_mode s of
                          Some (w, h) \<Rightarrow> [''--mode'', str_int w @ ''x'' @ str_int h]
                        | None \<Rightarrow> [''--auto''])"
  have t: "entry_args out s = tokens"
    using xy [symmetric] by (simp add: entry_args_def tokens_def split: option.splits prod.splits)
  have m1: "dict_get arg_groups (KName out) = Some tokens"
    by (simp add: dict_get_def g1 map_of_dict_set t)
  have m2: "dict_get groups (KName out) = Some tokens"
    if b: "build_arg_groups (pre @ s # post) available_displays = (evs', Inr groups)"
      and n: "Some out \<notin> spec_output ` set post" for post evs' groups
  proof -
    obtain e r where a: "activate (pre @ s # post) available_displays [] = (e, r)"
      by (cases "activate (pre @ s # post) available_displays []")
    from b a obtain ga where r: "r = Inr ga"
      by (cases r) (auto simp: build_arg_groups_def)
    from b a r have g: "groups = turn_off available_displays ga"
      by (auto simp: build_arg_groups_def split: if_splits)
    have sp: "pre @ s # post = (pre @ [s]) @ post" by simp
    from a r assms obtain e2 where
      a2: "activate post available_displays arg_groups = (e2, Inr ga)"
      by (auto simp: sp activate_append simp del: append_assoc split: prod.splits)
    from n have "\<forall>t \<in> set post. spec_output t \<noteq> Some out" by force
    from activate_preserves [OF a2 this] m1 show ?thesis
      by (simp add: dict_get_def g map_of_turn_off)
  qed
  from o xy m1 m2 show ?thesis unfolding tokens_def Let_def by blast
qed

theorem entry_group_tokens_witness:
  "\<exists>arg_groups.
     activate
       ([\<lparr>spec_output = Some ''DP-1'', spec_mode = Some (2560, 1440), spec_pos = None\<rparr>]
        @ [\<lparr>spec_output = Some ''eDP-1'', spec_mode = None, spec_pos = Some (2560, 0)\<rparr>])
       [\<lparr>obj_id = 0, name = ''eDP-1'', is_connected = True, modes = []\<rparr>,
        \<lparr>obj_id = 1, name = ''DP-1'', is_connected = True, modes = []\<rparr>] []
     = ([], Inr arg_groups) \<and>
     dict_get arg_groups (KName ''eDP-1'')
       = Some [''--output'', ''eDP-1'', ''--pos'', ''2560x0'', ''--auto'']"
proof -
  let ?pre = "[\<lparr>spec_output = Some ''DP-1'', spec_mode = Some (2560, 1440), spec_pos = None\<rparr>]"
  let ?s = "\<lparr>spec_output = Some ''eDP-1'', spec_mode = None, spec_pos = Some (2560, 0)\<rparr>"
  let ?av = "[\<lparr>obj_id = 0, name = ''eDP-1'', is_connected = True, modes = []\<rparr>,
              \<lparr>obj_id = 1, name = ''DP-1'', is_connected = True, modes = []\<rparr>]"
  obtain arg_groups where a: "activate (?pre @ [?s]) ?av [] = ([], Inr arg_groups)"
    by simp
  from entry_group_tokens [OF a] obtain out x y where
    o: "spec_output ?s = Some out" and
    xy: "(x, y) = (case spec_pos ?s of Some p \<Rightarrow> p | None \<Rightarrow> (0, 0))" and
    t: "dict_get arg_groups (KName out) =
            Some ([''--output'', out, ''--pos'', str_int x @ ''x'' @ str_int y]
                     @ (case spec_mode ?s of
                          Some (w, h) \<Rightarrow> [''--mode'', str_int w @ ''x'' @ str_int h]
                        | None \<Rightarrow> [''--auto'']))"
    unfolding Let_def by blast
  from o have out: "out = ''eDP-1''" by simp
  from xy have x: "x = 2560" and y: "y = 0" by simp_all
  from t have "dict_get arg_groups (KName ''eDP-1'')
       = Some [''--output'', ''eDP-1'', ''--pos'', ''2560x0'', ''--auto'']"
    by (simp add: out x y str_int_def str_nat.simps digit_def)
  with a show ?thesis by blast
qed

subsection \<open>Determinism\<close>

text \<open>
  Claim C7. Build the groups of one setup against two probes of the same content: the
  same names, connection states and modes in the same order, the device objects being
  new ones in each probe. Both builds print the same lines and either return the same
  code or produce the same argument groups in the same order, hence the same command
  line.
\<close>

theorem builder_deterministic:
  assumes "map (\<lambda>d. (name d, is_connected d, modes d)) av1
             = map (\<lambda>d. (name d, is_connected d, modes d)) av2"
    and "distinct (map obj_id av1)" and "distinct (map obj_id av2)"
  shows "fst (build_arg_groups p av1) = fst (build_arg_groups p av2)
    \<and> map_sum id values_of (snd (build_arg_groups p av1))
        = map_sum id values_of (snd (build_arg_groups p av2))
    \<and> map_sum id (\<lambda>g. xrandr_args g dry_run) (snd (build_arg_groups p av1))
        = map_sum id (\<lambda>g. xrandr_args g dry_run) (snd (build_arg_groups p av2))"
proof -
  have a: "activate p av1 [] = activate p av2 []"
    by (rule activate_same_attributes [OF assms(1)])
  obtain e1 r1 where b1: "build_arg_groups p av1 = (e1, r1)"
    by (cases "build_arg_groups p av1")
  obtain e2 r2 where b2: "build_arg_groups p av2 = (e2, r2)"
    by (cases "build_arg_groups p av2")
  have n: "map name av1 = map name av2"
    using arg_cong [OF assms(1), of "map fst"] by (simp add: comp_def)
  have e: "e1 = e2" using b1 b2 a
    by (auto simp: build_arg_groups_def split: prod.splits sum.splits if_splits)
  have r: "map_sum id values_of r1 = map_sum id values_of r2"
  proof (cases r1)
    case (Inl c)
    with b1 b2 a show ?thesis
      by (auto simp: build_arg_groups_def split: prod.splits sum.splits if_splits)
  next
    case (Inr g1)
    with b1 b2 a obtain g2 where r2: "r2 = Inr g2"
      by (auto simp: build_arg_groups_def split: prod.splits sum.splits if_splits)
    have "values_of g1 = values_of g2"
      using build_values [OF b1 [unfolded Inr] assms(2)]
        build_values [OF b2 [unfolded r2] assms(3)] n
      by (simp add: off_groups_names)
    with Inr r2 show ?thesis by simp
  qed
  have x: "map_sum id (\<lambda>g. xrandr_args g dry_run) r1
         = map_sum id (\<lambda>g. xrandr_args g dry_run) r2"
    using r by (cases r1; cases r2) (simp_all add: xrandr_args_eq)
  from e r x b1 b2 show ?thesis by simp
qed


theorem builder_deterministic_witness:
  "map_sum id (\<lambda>g. xrandr_args g True)
     (snd (build_arg_groups
        [\<lparr>spec_output = Some ''eDP-1'', spec_mode = Some (1920, 1080), spec_pos = None\<rparr>]
        [\<lparr>obj_id = 0, name = ''eDP-1'', is_connected = True, modes = [[''1920'', ''1080'']]\<rparr>,
         \<lparr>obj_id = 1, name = ''VGA-1'', is_connected = False, modes = []\<rparr>]))
   = map_sum id (\<lambda>g. xrandr_args g True)
     (snd (build_arg_groups
        [\<lparr>spec_output = Some ''eDP-1'', spec_mode = Some (1920, 1080), spec_pos = None\<rparr>]
        [\<lparr>obj_id = 7, name = ''eDP-1'', is_connected = True, modes = [[''1920'', ''1080'']]\<rparr>,
         \<lparr>obj_id = 4, name = ''VGA-1'', is_connected = False, modes = []\<rparr>]))"
proof -
  let ?av1 = "[\<lparr>obj_id = 0, name = ''eDP-1'', is_connected = True, modes = [[''1920'', ''1080'']]\<rparr>,
         \<lparr>obj_id = 1, name = ''VGA-1'', is_connected = False, modes = []\<rparr>]"
  let ?av2 = "[\<lparr>obj_id = 7, name = ''eDP-1'', is_connected = True, modes = [[''1920'', ''1080'']]\<rparr>,
         \<lparr>obj_id = 4, name = ''VGA-1'', is_connected = False, modes = []\<rparr>]"
  have h1: "map (\<lambda>d. (name d, is_connected d, modes d)) ?av1
          = map (\<lambda>d. (name d, is_connected d, modes d)) ?av2" by simp
  have h2: "distinct (map obj_id ?av1)" by simp
  have h3: "distinct (map obj_id ?av2)" by simp
  from builder_deterministic [OF h1 h2 h3] show ?thesis by blast
qed

subsection \<open>Keys of the argument groups\<close>

text \<open>
  Claim C1, evaluated where the code departs from it. For the setup and the probed
  devices of the scenario of the specification, the keys of the argument groups are
  the names \<^verbatim>\<open>eDP-1\<close> and \<^verbatim>\<open>HDMI-1\<close> and the device object of VGA-1: line 128
  stores the off group under \<^verbatim>\<open>display\<close>, not under \<^verbatim>\<open>display.name\<close>, so the
  probed name \<^verbatim>\<open>VGA-1\<close> is not a key.
\<close>

theorem off_group_keyed_by_device:
  "\<exists>groups.
     build_arg_groups
       [\<lparr>spec_output = Some ''eDP-1'', spec_mode = Some (1920, 1080), spec_pos = Some (0, 0)\<rparr>,
        \<lparr>spec_output = Some ''HDMI-1'', spec_mode = None, spec_pos = None\<rparr>]
       [\<lparr>obj_id = 0, name = ''eDP-1'', is_connected = True, modes = []\<rparr>,
        \<lparr>obj_id = 1, name = ''HDMI-1'', is_connected = True, modes = []\<rparr>,
        \<lparr>obj_id = 2, name = ''VGA-1'', is_connected = False, modes = []\<rparr>]
       = ([], Inr groups)
     \<and> keys groups = [KName ''eDP-1'', KName ''HDMI-1'', KDevice 2]
     \<and> KName ''VGA-1'' \<notin> set (keys groups)"
  by (simp add: build_arg_groups_def keys_def)

subsection \<open>The modes of a probed device\<close>

text \<open>
  Claim C8 as stated fails: the pieces of a mode are stored as the strings that the
  split gives and are never parsed. For the interlaced mode \<^verbatim>\<open>1920x1080i\<close> the device
  stores \<^verbatim>\<open>['1920', '1080i']\<close>, whose second piece is not even the numeral of a
  positive integer.
\<close>

theorem interlaced_mode_counterexample:
  "parse_displays [''HDMI-1 connected'', ''   1920x1080i    60.00'']
     = Inr [\<lparr>obj_id = 0, name = ''HDMI-1'', is_connected = True,
              modes = [[''1920'', ''1080i'']]\<rparr>]
   \<and> \<not> positive_integer_text ''1080i''"
  by (simp add: parse_displays_def startswith_def split_def isspace_def split_on_def
      OutputDevice_init_def add_mode_def positive_integer_text_def)

text \<open>
  Claim C8, amended. Whenever the prober returns, the names, connection states and
  mode lists of the devices are those of \<open>records_spec\<close>: the mode list of a device
  holds, in line order, for each indented line between its header line and the next
  one, the pieces of the first word of the line split on \<^verbatim>\<open>x\<close>; and every stored mode
  is a list of exactly two strings.
\<close>

theorem modes_are_split_strings:
  assumes "parse_displays ls = Inr displays"
  shows "map (\<lambda>d. (name d, is_connected d, modes d)) displays = records_spec ls
    \<and> (\<forall>d \<in> set displays. \<forall>m \<in> set (modes d). \<exists>width height. m = [width, height])"
proof -
  from assms obtain D nd where s: "scan_lines ls [] None 0 = Inr (D, nd)"
    and av: "displays = (case nd of Some d \<Rightarrow> D @ [d] | None \<Rightarrow> D)"
    by (auto simp: parse_displays_def split: sum.splits)
  have av': "displays = D @ (case nd of Some d \<Rightarrow> [d] | None \<Rightarrow> [])"
    by (simp add: av split: option.splits)
  have 1: "map (\<lambda>d. (name d, is_connected d, modes d)) displays = records_spec ls"
    using scan_lines_records [OF s] by (simp add: av')
  have "\<forall>d \<in> set displays. \<forall>m \<in> set (modes d). length m = 2"
    using scan_lines_pairs [OF s] by (simp add: av')
  then have 2: "\<forall>d \<in> set displays. \<forall>m \<in> set (modes d). \<exists>width height. m = [width, height]"
    by (metis length_0_conv length_Suc_conv numeral_2_eq_2)
  from 1 2 show ?thesis by simp
qed

theorem modes_are_split_strings_witness:
  "records_spec [''Screen 0: minimum 8 x 8'', ''eDP-1 connected primary'',
                 ''   1920x1080     60.00*+'', ''   1280x720i 60'', ''VGA-1 disconnected'']
   = [(''eDP-1'', True, [[''1920'', ''1080''], [''1280'', ''720i'']]), (''VGA-1'', False, [])]"
proof -
  let ?ls = "[''Screen 0: minimum 8 x 8'', ''eDP-1 connected primary'',
                 ''   1920x1080     60.00*+'', ''   1280x720i 60'', ''VGA-1 disconnected'']"
  have p: "parse_displays ?ls
     = Inr [\<lparr>obj_id = 0, name = ''eDP-1'', is_connected = True,
              modes = [[''1920'', ''1080''], [''1280'', ''720i'']]\<rparr>,
            \<lparr>obj_id = 1, name = ''VGA-1'', is_connected = False, modes = []\<rparr>]"
    by (simp add: parse_displays_def startswith_def split_def isspace_def split_on_def
        OutputDevice_init_def add_mode_def)
  from modes_are_split_strings [OF p] show ?thesis by simp
qed

subsection \<open>When the prober returns\<close>

text \<open>
  Claim C10 as stated fails. Take a query output whose only line is a tab followed by
  \<^verbatim>\<open>1920x1080 60.00\<close>. The line starts with whitespace and no header line precedes it,
  so the condition of the claim is violated; but \<^verbatim>\<open>line.startswith(' ')\<close> is false, so
  the prober takes the line as the start of a device named \<^verbatim>\<open>1920x1080\<close> and returns
  normally.
\<close>

theorem tab_indented_line_counterexample:
  "snd (get_available_displays
          \<lparr>read_json = \<lambda>f. Inr [], query_lines = Inr [CHR 0x09 # ''1920x1080 60.00''],
           apply_returncode = \<lambda>a. Inr 0\<rparr>)
     = Inr [\<lparr>obj_id = 0, name = ''1920x1080'', is_connected = False, modes = []\<rparr>]
   \<and> \<not> claimed_well_formed_query [CHR 0x09 # ''1920x1080 60.00'']"
proof -
  have "claimed_indented_line (CHR 0x09 # ''1920x1080 60.00'')"
    by (simp add: claimed_indented_line_def starts_with_whitespace_def startswith_def
        isspace_def)
  then have "\<not> claimed_well_formed_query [CHR 0x09 # ''1920x1080 60.00'']"
    unfolding claimed_well_formed_query_def
    by (metis append_Nil empty_iff list.set(1))
  moreover have "snd (get_available_displays
          \<lparr>read_json = \<lambda>f. Inr [], query_lines = Inr [CHR 0x09 # ''1920x1080 60.00''],
           apply_returncode = \<lambda>a. Inr 0\<rparr>)
     = Inr [\<lparr>obj_id = 0, name = ''1920x1080'', is_connected = False, modes = []\<rparr>]"
    by (simp add: get_available_displays_def parse_displays_def startswith_def split_def
        isspace_def OutputDevice_init_def)
  ultimately show ?thesis by simp
qed

text \<open>
  Claim C10, amended: indentation is a leading space character, as the code tests it.
  The prober returns a list of devices only for a well-formed query output: every line
  that begins neither with \<^verbatim>\<open>Screen\<close> nor with a space has at least two words, and
  every line that begins with a space has such a line before it. On any other query
  output, a first line that begins with a space or a device line of one word for
  instance, it raises.
\<close>

theorem prober_returns_only_on_well_formed:
  assumes "query_lines w = Inr ls"
  shows "(\<forall>ds. snd (get_available_displays w) = Inr ds \<longrightarrow> well_formed_query ls)
    \<and> (\<not> well_formed_query ls \<longrightarrow> (\<exists>e. snd (get_available_displays w) = Inl e))"
proof -
  have g: "snd (get_available_displays w) = parse_displays ls"
    using assms by (simp add: get_available_displays_def)
  show ?thesis
    using parse_displays_well_formed [of ls] by (cases "parse_displays ls") (auto simp: g)
qed


theorem prober_returns_only_on_well_formed_witness:
  "well_formed_query [''eDP-1 connected primary'', ''   1920x1080 60.00*+'']
   \<and> (\<exists>e. snd (get_available_displays
            \<lparr>read_json = \<lambda>f. Inr [], query_lines = Inr [''   1920x1080 60.00*+''],
             apply_returncode = \<lambda>a. Inr 0\<rparr>) = Inl e)
   \<and> (\<exists>e. snd (get_available_displays
            \<lparr>read_json = \<lambda>f. Inr [], query_lines = Inr [''eDP-1''],
             apply_returncode = \<lambda>a. Inr 0\<rparr>) = Inl e)"
proof -
  let ?good = "[''eDP-1 connected primary'', ''   1920x1080 60.00*+'']"
  let ?w = "\<lambda>ls. \<lparr>read_json = \<lambda>f. Inr [], query_lines = Inr ls,
                  apply_returncode = \<lambda>a. Inr (0::int)\<rparr>"
  have q: "\<And>ls. query_lines (?w ls) = Inr ls" by simp
  have "snd (get_available_displays (?w ?good))
     = Inr [\<lparr>obj_id = 0, name = ''eDP-1'', is_connected = True,
              modes = [[''1920'', ''1080'']]\<rparr>]"
    by (simp add: get_available_displays_def parse_displays_def startswith_def split_def
        isspace_def split_on_def OutputDevice_init_def add_mode_def)
  with prober_returns_only_on_well_formed [OF q, of ?good]
  have 1: "well_formed_query ?good" by blast
  have "space_indented_line ''   1920x1080 60.00*+''"
    by (simp add: space_indented_line_def startswith_def)
  then have "\<not> well_formed_query [''   1920x1080 60.00*+'']"
    unfolding well_formed_query_def
    by (metis append_Nil empty_iff list.set(1))
  with prober_returns_only_on_well_formed [OF q, of "[''   1920x1080 60.00*+'']"]
  have 2: "\<exists>e. snd (get_available_displays (?w [''   1920x1080 60.00*+''])) = Inl e"
    by blast
  have "device_line ''eDP-1'' \<and> \<not> 2 \<le> length (split ''eDP-1'')"
    by (simp add: device_line_def startswith_def split_def isspace_def)
  then have "\<not> well_formed_query [''eDP-1'']"
    unfolding well_formed_query_def by (metis list.set_intros(1))
  with prober_returns_only_on_well_formed [OF q, of "[''eDP-1'']"]
  have 3: "\<exists>e. snd (get_available_displays (?w [''eDP-1''])) = Inl e"
    by blast
  from 1 2 3 show ?thesis by simp
qed

end
